theory Spec2Isabelle
  imports Complex_Main
begin

section \<open>Data model of \<^verbatim>\<open>App.js\<close>\<close>

text \<open>
  The game keeps its board in a JavaScript array whose slots hold \<^verbatim>\<open>null\<close>,
  \<^verbatim>\<open>"X"\<close> or \<^verbatim>\<open>"O"\<close>. A JavaScript array can also have holes (slots never
  written, which appear when an index beyond the end is assigned) and a spread copy
  turns a hole into the value \<^verbatim>\<open>undefined\<close>; the array methods \<^verbatim>\<open>every\<close>,
  \<^verbatim>\<open>map\<close> and \<^verbatim>\<open>filter\<close> skip holes but not \<^verbatim>\<open>undefined\<close>. Both are kept
  in the model so that every function is defined on every array the code can build.
\<close>

text \<open>The strings \<^verbatim>\<open>"X"\<close> and \<^verbatim>\<open>"O"\<close>.\<close>

datatype mark = MarkX | MarkO

datatype cell = Hole | Undefined | Null | Mk mark

type_synonym board = "cell list"

text \<open>The two entries of \<^verbatim>\<open>MODES\<close>.\<close>

datatype mode = SINGLE | TWO

text \<open>
  What \<^verbatim>\<open>checkWinner\<close> returns when it does not return \<^verbatim>\<open>null\<close>: a mark or
  \<^verbatim>\<open>"draw"\<close>. The value \<^verbatim>\<open>null\<close> is \<open>None\<close>.
\<close>

datatype verdict = Won mark | Draw

text \<open>
  Reading \<^verbatim>\<open>board[i]\<close>: a hole and an index past the end both read as
  \<^verbatim>\<open>undefined\<close>.
\<close>

definition cell_at :: "board \<Rightarrow> nat \<Rightarrow> cell" where
  "cell_at b i = (if i < length b then (case b ! i of Hole \<Rightarrow> Undefined | c \<Rightarrow> c) else Undefined)"

text \<open>JavaScript truthiness of a cell value: only a (non-empty) string is truthy.\<close>

fun truthy :: "cell \<Rightarrow> bool" where
  "truthy (Mk m) = True"
| "truthy c = False"

text \<open>\<^verbatim>\<open>v == null\<close> (loose equality): true of \<^verbatim>\<open>null\<close> and \<^verbatim>\<open>undefined\<close>.\<close>

fun nullish :: "cell \<Rightarrow> bool" where
  "nullish (Mk m) = False"
| "nullish c = True"

text \<open>The spread copy \<^verbatim>\<open>[...board]\<close>: holes become \<^verbatim>\<open>undefined\<close>.\<close>

definition spread :: "board \<Rightarrow> board" where
  "spread b = map (\<lambda>c. case c of Hole \<Rightarrow> Undefined | c' \<Rightarrow> c') b"

text \<open>
  The assignment \<^verbatim>\<open>arr[i] = v\<close>: inside the array it overwrites the slot, beyond the
  end it extends the array, leaving holes in between.
\<close>

definition assign :: "board \<Rightarrow> nat \<Rightarrow> cell \<Rightarrow> board" where
  "assign b i v = (if i < length b then b[i := v] else b @ replicate (i - length b) Hole @ [v])"

section \<open>Game logic utilities\<close>

definition getInitialBoard :: board where
  "getInitialBoard = replicate 9 Null"

text \<open>The constant \<^verbatim>\<open>lines\<close> of \<^verbatim>\<open>checkWinner\<close>, in the order of the source.\<close>

definition lines :: "(nat \<times> nat \<times> nat) list" where
  "lines = [(0, 1, 2), (3, 4, 5), (6, 7, 8),
            (0, 3, 6), (1, 4, 7), (2, 5, 8),
            (0, 4, 8), (2, 4, 6)]"

text \<open>The test of the loop body: \<^verbatim>\<open>board[a] && board[a] === board[b] && board[a] === board[c]\<close>.\<close>

fun line_match :: "board \<Rightarrow> nat \<times> nat \<times> nat \<Rightarrow> bool" where
  "line_match brd (a, b, c) =
     (truthy (cell_at brd a) \<and> cell_at brd a = cell_at brd b \<and> cell_at brd a = cell_at brd c)"

text \<open>\<^verbatim>\<open>board.every((cell) => cell)\<close>: the callback is not called on holes.\<close>

definition every_cell :: "board \<Rightarrow> bool" where
  "every_cell brd = list_all (\<lambda>c. c = Hole \<or> truthy c) brd"

text \<open>
  \<^verbatim>\<open>checkWinner\<close>: the loop returns \<^verbatim>\<open>board[a]\<close> at the first line that passes
  the test; that value is truthy, hence a mark (the other branch of the inner case
  cannot be reached).
\<close>

definition checkWinner :: "board \<Rightarrow> verdict option" where
  "checkWinner brd =
     (case find (line_match brd) lines of
        Some (a, b, c) \<Rightarrow> (case cell_at brd a of Mk m \<Rightarrow> Some (Won m) | _ \<Rightarrow> None)
      | None \<Rightarrow> if every_cell brd then Some Draw else None)"

text \<open>
  \<^verbatim>\<open>getAvailableMoves\<close>: the indices whose slot is strictly \<^verbatim>\<open>null\<close>, ascending
  (\<^verbatim>\<open>map\<close> and \<^verbatim>\<open>filter\<close> skip holes, and \<^verbatim>\<open>undefined === null\<close> is false).
\<close>

definition getAvailableMoves :: "board \<Rightarrow> nat list" where
  "getAvailableMoves brd = filter (\<lambda>idx. brd ! idx = Null) [0 ..< length brd]"

section \<open>The computer's move\<close>

text \<open>
  The hypothetical board of the two search loops: \<^verbatim>\<open>const copy = [...board]; copy[idx] = mark\<close>.
\<close>

definition hypothetical :: "board \<Rightarrow> nat \<Rightarrow> mark \<Rightarrow> board" where
  "hypothetical brd idx m = assign (spread brd) idx (Mk m)"

text \<open>
  \<^verbatim>\<open>arr[Math.floor(Math.random() * arr.length)]\<close>, where \<open>u\<close> is the number that
  \<^verbatim>\<open>Math.random()\<close> returns (a real number here; the source promises
  \<open>0 \<le> u < 1\<close>). Reading past the end of the array gives \<^verbatim>\<open>undefined\<close>, which is
  \<open>None\<close>, like \<^verbatim>\<open>null\<close>: the caller tests the result with \<^verbatim>\<open>idx != null\<close>.
\<close>

definition pick :: "real \<Rightarrow> nat list \<Rightarrow> nat option" where
  "pick u arr =
     (let k = nat \<lfloor>u * real (length arr)\<rfloor>
      in if k < length arr then Some (arr ! k) else None)"

text \<open>
  \<^verbatim>\<open>computerMove\<close>. Each \<^verbatim>\<open>for\<close> loop returns the first index of
  \<^verbatim>\<open>getAvailableMoves(board)\<close> that passes its test. At most one of the two calls of
  \<^verbatim>\<open>Math.random\<close> is reached, so one number \<open>u\<close> stands for it.
\<close>

definition computerMove :: "real \<Rightarrow> board \<Rightarrow> mark \<Rightarrow> mark \<Rightarrow> nat option" where
  "computerMove u brd aiMark humanMark =
     (case find (\<lambda>idx. checkWinner (hypothetical brd idx aiMark) = Some (Won aiMark))
             (getAvailableMoves brd) of
        Some idx \<Rightarrow> Some idx
      | None \<Rightarrow>
         (case find (\<lambda>idx. checkWinner (hypothetical brd idx humanMark) = Some (Won humanMark))
                 (getAvailableMoves brd) of
            Some idx \<Rightarrow> Some idx
          | None \<Rightarrow>
              if nullish (cell_at brd 4) then Some 4
              else
                let corners = filter (\<lambda>i. nullish (cell_at brd i)) [0, 2, 6, 8]
                in if length corners > 0 then pick u corners
                   else
                     let available = getAvailableMoves brd
                     in if length available = 0 then None else pick u available))"

section \<open>The state of \<^verbatim>\<open>App\<close> and its handlers\<close>

text \<open>The five \<^verbatim>\<open>useState\<close> cells of the component.\<close>

record session =
  mode :: mode
  board :: board
  isXTurn :: bool
  winner :: "verdict option"
  gameActive :: bool

text \<open>The initial values given to \<^verbatim>\<open>useState\<close>.\<close>

definition initial :: session where
  "initial = \<lparr>mode = SINGLE, board = getInitialBoard, isXTurn = True,
              winner = None, gameActive = True\<rparr>"

text \<open>
  \<^verbatim>\<open>makeMove\<close>: the early return leaves the state alone; otherwise \<^verbatim>\<open>setBoard(next)\<close>
  and \<^verbatim>\<open>setIsXTurn((prev) => !prev)\<close>.
\<close>

definition makeMove :: "session \<Rightarrow> nat \<Rightarrow> session" where
  "makeMove s idx =
     (if \<not> gameActive s \<or> truthy (cell_at (board s) idx) then s
      else s\<lparr>board := assign (spread (board s)) idx (Mk (if isXTurn s then MarkX else MarkO)),
             isXTurn := \<not> isXTurn s\<rparr>)"

definition handleCellClick :: "session \<Rightarrow> nat \<Rightarrow> session" where
  "handleCellClick s idx =
     (if mode s = SINGLE then
        (if \<not> isXTurn s \<or> \<not> nullish (cell_at (board s) idx) then s else makeMove s idx)
      else
        (if \<not> nullish (cell_at (board s) idx) then s else makeMove s idx))"

definition handleRestart :: "session \<Rightarrow> session" where
  "handleRestart s =
     s\<lparr>board := getInitialBoard, isXTurn := True, winner := None, gameActive := True\<rparr>"

text \<open>
  The first statements of the effect that React runs after a render in which
  \<^verbatim>\<open>board\<close>, \<^verbatim>\<open>isXTurn\<close> or \<^verbatim>\<open>mode\<close> changed:
  \<^verbatim>\<open>const res = checkWinner(board); setWinner(res); setGameActive(res === null)\<close>.
\<close>

definition boardEffect :: "session \<Rightarrow> session" where
  "boardEffect s =
     s\<lparr>winner := checkWinner (board s), gameActive := (checkWinner (board s) = None)\<rparr>"

text \<open>
  The states the component can be in: any sequence of the handlers, of the effect and of
  \<^verbatim>\<open>setMode\<close>, from the initial state.
\<close>

inductive reachable :: "session \<Rightarrow> bool" where
  reach_initial: "reachable initial"
| reach_makeMove: "reachable s \<Longrightarrow> reachable (makeMove s idx)"
| reach_click: "reachable s \<Longrightarrow> reachable (handleCellClick s idx)"
| reach_restart: "reachable s \<Longrightarrow> reachable (handleRestart s)"
| reach_effect: "reachable s \<Longrightarrow> reachable (boardEffect s)"
| reach_setMode: "reachable s \<Longrightarrow> reachable (s\<lparr>mode := m\<rparr>)"

text \<open>The number of cells holding X minus the number of cells holding O.\<close>

definition balance :: "session \<Rightarrow> int" where
  "balance s = int (count_list (board s) (Mk MarkX)) - int (count_list (board s) (Mk MarkO))"

section \<open>The component with its pending timer\<close>

text \<open>
  The second effect of \<^verbatim>\<open>App\<close> schedules the computer's move with \<^verbatim>\<open>setTimeout\<close>
  and returns a cleanup that calls \<^verbatim>\<open>clearTimeout\<close>. The model keeps, beside the
  state, the pending callback, if any: it is the render that created it, whose
  \<^verbatim>\<open>board\<close>, \<^verbatim>\<open>isXTurn\<close> and \<^verbatim>\<open>gameActive\<close> the callback and its
  \<^verbatim>\<open>makeMove\<close> have captured. React is taken as follows: an event handler runs to its
  end, then the component renders and the effects whose dependencies changed run (first
  the cleanup of their previous run), and the renders that the effects themselves cause
  follow, before the next event or timer is served.
\<close>

record app =
  cur :: session
  timer :: "session option"

text \<open>The cleanup of the second effect: \<^verbatim>\<open>clearTimeout(aiTimeout)\<close>.\<close>

definition clearTimeout :: "app \<Rightarrow> app" where
  "clearTimeout a = a\<lparr>timer := None\<rparr>"

text \<open>
  The body of the second effect, run for the render \<open>r\<close>: the two setters act on the
  state, and the timer is set when the mode is single-player, it is O's turn and the game
  is open.
\<close>

definition runEffect :: "session \<Rightarrow> app \<Rightarrow> app" where
  "runEffect r a =
     (let res = checkWinner (board r);
          a' = a\<lparr>cur := (cur a)\<lparr>winner := res, gameActive := (res = None)\<rparr>\<rparr>
      in if mode r = SINGLE \<and> \<not> isXTurn r \<and> res = None then a'\<lparr>timer := Some r\<rparr> else a')"

text \<open>
  The effects after a render of the state \<open>cur a\<close>, where \<open>p\<close> is the render before and
  \<open>fresh\<close> tells that \<^verbatim>\<open>setBoard\<close> was called in between (a new array is a changed
  dependency whatever it holds). The first effect, on \<^verbatim>\<open>[mode]\<close>, calls
  \<^verbatim>\<open>handleRestart\<close>; the second, on \<^verbatim>\<open>[board, isXTurn, mode]\<close>, runs its cleanup
  and its body.
\<close>

definition afterRender :: "session \<Rightarrow> bool \<Rightarrow> app \<Rightarrow> app" where
  "afterRender p fresh a =
     (let r = cur a;
          a1 = (if mode r \<noteq> mode p then a\<lparr>cur := handleRestart (cur a)\<rparr> else a)
      in if fresh \<or> isXTurn r \<noteq> isXTurn p \<or> mode r \<noteq> mode p
         then runEffect r (clearTimeout a1) else a1)"

text \<open>
  A render and the render its effects cause. The second one has a new board exactly when
  the first effect ran; a third render would run no effect (lemma \<open>settled\<close>).
\<close>

definition commit :: "session \<Rightarrow> bool \<Rightarrow> app \<Rightarrow> app" where
  "commit p fresh a = afterRender (cur a) (mode (cur a) \<noteq> mode p) (afterRender p fresh a)"

text \<open>
  \<^verbatim>\<open>makeMove\<close> as the render \<open>r\<close> created it, called when the state is \<open>c\<close>: the test
  and the new board come from \<open>r\<close>, and \<^verbatim>\<open>setIsXTurn((prev) => !prev)\<close> flips the
  turn of the state.
\<close>

definition makeMoveFrom :: "session \<Rightarrow> nat \<Rightarrow> session \<Rightarrow> session" where
  "makeMoveFrom r idx c =
     (if \<not> gameActive r \<or> truthy (cell_at (board r) idx) then c
      else c\<lparr>board := assign (spread (board r)) idx (Mk (if isXTurn r then MarkX else MarkO)),
             isXTurn := \<not> isXTurn c\<rparr>)"

text \<open>
  The callback given to \<^verbatim>\<open>setTimeout\<close> by the render \<open>r\<close>; \<open>u\<close> is the number that
  \<^verbatim>\<open>Math.random\<close> returns to \<^verbatim>\<open>computerMove\<close>.
\<close>

definition timeoutCallback :: "real \<Rightarrow> session \<Rightarrow> session \<Rightarrow> session" where
  "timeoutCallback u r c =
     (case computerMove u (board r) MarkO MarkX of
        None \<Rightarrow> c
      | Some idx \<Rightarrow> if nullish (cell_at (board r) idx) then makeMoveFrom r idx c else c)"

text \<open>What can happen to the component: a click on a cell, the restart button, the mode
  selector, and the timer running out.\<close>

datatype event = Click nat | Restart | SetMode mode | Timeout real

fun step :: "event \<Rightarrow> app \<Rightarrow> app" where
  "step (Click idx) a =
     (let c = cur a; n = handleCellClick c idx in commit c (n \<noteq> c) (a\<lparr>cur := n\<rparr>))"
| "step Restart a = commit (cur a) True (a\<lparr>cur := handleRestart (cur a)\<rparr>)"
| "step (SetMode m) a = commit (cur a) False (a\<lparr>cur := (cur a)\<lparr>mode := m\<rparr>\<rparr>)"
| "step (Timeout u) a =
     (case timer a of
        None \<Rightarrow> a
      | Some r \<Rightarrow>
          (let c = cur a; n = timeoutCallback u r c
           in commit c (n \<noteq> c) \<lparr>cur = n, timer = None\<rparr>))"

text \<open>
  The component once mounted: on the first render both effects run, and the board set by
  \<^verbatim>\<open>handleRestart\<close> causes a second render.
\<close>

definition mounted :: app where
  "mounted =
     (let r = initial;
          a1 = \<lparr>cur = handleRestart r, timer = None\<rparr>;
          a2 = runEffect r a1
      in afterRender r True a2)"

text \<open>The states of the component: those that events lead to from the mounted one.\<close>

inductive app_reachable :: "app \<Rightarrow> bool" where
  reach_mounted: "app_reachable mounted"
| reach_step: "app_reachable a \<Longrightarrow> app_reachable (step e a)"

text \<open>
  A pending callback has captured the board and the turn of the current state, in
  single-player mode, at O's turn, in an open game.
\<close>

definition timer_fresh :: "app \<Rightarrow> bool" where
  "timer_fresh a =
     (case timer a of
        None \<Rightarrow> True
      | Some r \<Rightarrow> board r = board (cur a) \<and> isXTurn r = isXTurn (cur a) \<and> mode r = mode (cur a)
          \<and> gameActive r \<and> mode (cur a) = SINGLE \<and> \<not> isXTurn (cur a)
          \<and> gameActive (cur a) \<and> checkWinner (board (cur a)) = None)"

section \<open>Boards of the data model\<close>

text \<open>A board of the game: nine cells, each \<^verbatim>\<open>null\<close> or a mark.\<close>

definition wf_board :: "board \<Rightarrow> bool" where
  "wf_board brd = (length brd = 9 \<and> list_all (\<lambda>c. c = Null \<or> truthy c) brd)"

text \<open>A triple is completed by mark \<open>m\<close>: its three cells all hold \<open>m\<close>.\<close>

fun completed :: "board \<Rightarrow> nat \<times> nat \<times> nat \<Rightarrow> mark \<Rightarrow> bool" where
  "completed brd (a, b, c) m =
     (cell_at brd a = Mk m \<and> cell_at brd b = Mk m \<and> cell_at brd c = Mk m)"

section \<open>Properties of \<^verbatim>\<open>checkWinner\<close>\<close>

lemma truthy_iff: "truthy c = (\<exists>m. c = Mk m)"
  by (cases c) simp_all

lemma line_match_iff: "line_match brd l = (\<exists>m. completed brd l m)"
  by (cases l) (auto simp: truthy_iff)

lemma completed_mark_unique: "completed brd l m \<Longrightarrow> completed brd l m' \<Longrightarrow> m = m'"
  by (cases l) simp

lemma checkWinner_at_first:
  assumes k: "k < length lines"
    and c: "completed brd (lines ! k) m"
    and first: "\<forall>j<k. \<not> line_match brd (lines ! j)"
  shows "checkWinner brd = Some (Won m)"
proof -
  have "line_match brd (lines ! k)"
    using c line_match_iff by blast
  with k first have f: "find (line_match brd) lines = Some (lines ! k)"
    unfolding find_Some_iff by blast
  obtain a b c' where l: "lines ! k = (a, b, c')"
    by (cases "lines ! k") auto
  with c have "cell_at brd a = Mk m" by simp
  with f l show ?thesis by (simp add: checkWinner_def)
qed

lemma checkWinner_no_line:
  assumes "\<forall>l \<in> set lines. \<not> line_match brd l"
  shows "checkWinner brd = (if every_cell brd then Some Draw else None)"
proof -
  from assms have "find (line_match brd) lines = None"
    unfolding find_None_iff by blast
  then show ?thesis by (simp add: checkWinner_def)
qed

lemma wf_every_cell:
  assumes "wf_board brd"
  shows "every_cell brd = (\<forall>i<9. brd ! i \<noteq> Null)"
proof -
  from assms have len: "length brd = 9"
    and cells: "\<forall>i<9. brd ! i = Null \<or> truthy (brd ! i)"
    by (auto simp: wf_board_def list_all_length)
  have "every_cell brd = (\<forall>i<9. brd ! i = Hole \<or> truthy (brd ! i))"
    by (simp add: every_cell_def list_all_length len)
  also have "\<dots> = (\<forall>i<9. brd ! i \<noteq> Null)"
    using cells by (metis cell.distinct(3) truthy.simps(4))
  finally show ?thesis .
qed

text \<open>
  C1. On a nine-cell board on which no triple is completed by a mark,
  \<^verbatim>\<open>checkWinner\<close> returns \<^verbatim>\<open>"draw"\<close> when every cell is non-empty and
  \<^verbatim>\<open>null\<close> (in progress) otherwise.
\<close>

theorem checkWinner_draw_or_in_progress:
  assumes "wf_board brd"
    and "\<forall>l \<in> set lines. \<forall>m. \<not> completed brd l m"
  shows "checkWinner brd = (if \<forall>i<9. brd ! i \<noteq> Null then Some Draw else None)"
proof -
  from assms(2) have "\<forall>l \<in> set lines. \<not> line_match brd l"
    by (simp add: line_match_iff)
  then have "checkWinner brd = (if every_cell brd then Some Draw else None)"
    by (rule checkWinner_no_line)
  with assms(1) show ?thesis
    by (simp add: wf_every_cell)
qed

theorem checkWinner_draw_or_in_progress_witness:
  "wf_board [Mk MarkX, Mk MarkO, Mk MarkX, Mk MarkX, Mk MarkO, Mk MarkO, Mk MarkO, Mk MarkX, Mk MarkX]
   \<and> checkWinner [Mk MarkX, Mk MarkO, Mk MarkX, Mk MarkX, Mk MarkO, Mk MarkO, Mk MarkO, Mk MarkX, Mk MarkX]
       = Some Draw
   \<and> wf_board [Mk MarkX, Null, Mk MarkX, Mk MarkX, Mk MarkO, Mk MarkO, Mk MarkO, Mk MarkX, Mk MarkX]
   \<and> checkWinner [Mk MarkX, Null, Mk MarkX, Mk MarkX, Mk MarkO, Mk MarkO, Mk MarkO, Mk MarkX, Mk MarkX]
       = None"
proof -
  let ?d = "[Mk MarkX, Mk MarkO, Mk MarkX, Mk MarkX, Mk MarkO, Mk MarkO, Mk MarkO, Mk MarkX, Mk MarkX]"
  let ?p = "[Mk MarkX, Null, Mk MarkX, Mk MarkX, Mk MarkO, Mk MarkO, Mk MarkO, Mk MarkX, Mk MarkX]"
  have wd: "wf_board ?d" by (simp add: wf_board_def)
  have wp: "wf_board ?p" by (simp add: wf_board_def)
  have nd: "\<forall>l \<in> set lines. \<forall>m. \<not> completed ?d l m"
    by (simp add: lines_def cell_at_def)
  have np: "\<forall>l \<in> set lines. \<forall>m. \<not> completed ?p l m"
    by (simp add: lines_def cell_at_def)
  have fd: "\<forall>i<9. ?d ! i \<noteq> Null"
    by (simp add: All_less_Suc numeral_nat)
  have fp: "\<not> (\<forall>i<9. ?p ! i \<noteq> Null)"
    by (rule notI, drule spec[of _ 1], simp)
  from checkWinner_draw_or_in_progress[OF wd nd] checkWinner_draw_or_in_progress[OF wp np]
    wd wp fd fp
  show ?thesis by simp
qed

text \<open>
  C2. On every board, also one built with several completed triples, \<^verbatim>\<open>checkWinner\<close>
  returns the mark of the first completed triple in the order rows \<open>[0,1,2]\<close>,
  \<open>[3,4,5]\<close>, \<open>[6,7,8]\<close>, columns \<open>[0,3,6]\<close>, \<open>[1,4,7]\<close>, \<open>[2,5,8]\<close>, diagonals
  \<open>[0,4,8]\<close>, \<open>[2,4,6]\<close>: if the triple number \<open>k\<close> of that list is completed by
  \<open>m\<close> and no earlier triple is completed, the result is the winner \<open>m\<close>.
\<close>

theorem checkWinner_first_completed_triple:
  assumes "k < 8"
    and "completed brd ([(0, 1, 2), (3, 4, 5), (6, 7, 8), (0, 3, 6), (1, 4, 7), (2, 5, 8),
                         (0, 4, 8), (2, 4, 6)] ! k) m"
    and "\<forall>j<k. \<forall>m'. \<not> completed brd ([(0, 1, 2), (3, 4, 5), (6, 7, 8), (0, 3, 6), (1, 4, 7),
                         (2, 5, 8), (0, 4, 8), (2, 4, 6)] ! j) m'"
  shows "checkWinner brd = Some (Won m)"
  using assms checkWinner_at_first[of k brd m]
  by (simp add: lines_def line_match_iff)

theorem checkWinner_first_completed_triple_witness:
  "completed [Mk MarkX, Mk MarkO, Null, Mk MarkX, Mk MarkO, Null, Mk MarkX, Mk MarkO, Null]
     (0, 3, 6) MarkX
   \<and> completed [Mk MarkX, Mk MarkO, Null, Mk MarkX, Mk MarkO, Null, Mk MarkX, Mk MarkO, Null]
     (1, 4, 7) MarkO
   \<and> checkWinner [Mk MarkX, Mk MarkO, Null, Mk MarkX, Mk MarkO, Null, Mk MarkX, Mk MarkO, Null]
       = Some (Won MarkX)"
proof -
  let ?b = "[Mk MarkX, Mk MarkO, Null, Mk MarkX, Mk MarkO, Null, Mk MarkX, Mk MarkO, Null]"
  let ?ls = "[(0, 1, 2), (3, 4, 5), (6, 7, 8), (0, 3, 6), (1, 4, 7), (2, 5, 8),
              (0, 4, 8), (2, 4, 6)] :: (nat \<times> nat \<times> nat) list"
  have k: "(3::nat) < 8" by simp
  have c: "completed ?b (?ls ! 3) MarkX" by (simp add: cell_at_def)
  have f: "\<forall>j<3. \<forall>m'. \<not> completed ?b (?ls ! j) m'"
    by (simp add: All_less_Suc numeral_3_eq_3 cell_at_def)
  have c': "completed ?b (1, 4, 7) MarkO" by (simp add: cell_at_def)
  from checkWinner_first_completed_triple[OF k c f] c c' show ?thesis by simp
qed

section \<open>Properties of \<^verbatim>\<open>computerMove\<close>\<close>

lemma find_filter: "find P (filter Q xs) = find (\<lambda>x. Q x \<and> P x) xs"
  by (induction xs) auto

lemma find_upt_first:
  assumes "i < n" and "R i" and "\<forall>j<i. \<not> R j"
  shows "find R [0 ..< n] = Some i"
  unfolding find_Some_iff using assms by (intro exI[of _ i]) simp

lemma find_available_first:
  assumes "i < length brd" and "brd ! i = Null" and "P i"
    and "\<forall>j<i. \<not> (brd ! j = Null \<and> P j)"
  shows "find P (getAvailableMoves brd) = Some i"
  unfolding getAvailableMoves_def find_filter
  using assms by (intro find_upt_first) auto

lemma find_available_none:
  assumes "\<forall>j<length brd. \<not> (brd ! j = Null \<and> P j)"
  shows "find P (getAvailableMoves brd) = None"
  unfolding getAvailableMoves_def find_None_iff using assms by auto

lemma find_Some_mem: "find P xs = Some x \<Longrightarrow> x \<in> set xs"
  by (auto simp: find_Some_iff)

lemma set_getAvailableMoves:
  "set (getAvailableMoves brd) = {i. i < length brd \<and> brd ! i = Null}"
  by (auto simp: getAvailableMoves_def)

text \<open>On a board of the data model the copy is the board and the write stays inside.\<close>

lemma wf_spread: "wf_board brd \<Longrightarrow> spread brd = brd"
  unfolding wf_board_def spread_def list_all_iff
  by (intro map_idI) (auto simp: truthy_iff split: cell.splits)

lemma wf_hypothetical:
  "wf_board brd \<Longrightarrow> idx < 9 \<Longrightarrow> hypothetical brd idx m = brd[idx := Mk m]"
  by (simp add: hypothetical_def wf_spread assign_def wf_board_def)

lemma wf_cell_at: "wf_board brd \<Longrightarrow> i < 9 \<Longrightarrow> cell_at brd i = brd ! i"
  unfolding wf_board_def cell_at_def list_all_length
  by (auto simp: truthy_iff split: cell.splits)

lemma wf_nth: "wf_board brd \<Longrightarrow> i < 9 \<Longrightarrow> brd ! i = Null \<or> (\<exists>m. brd ! i = Mk m)"
  unfolding wf_board_def list_all_length by (auto simp: truthy_iff)

text \<open>
  C3. On a board where writing the computer's mark into some empty cell makes
  \<^verbatim>\<open>checkWinner\<close> return that mark, \<^verbatim>\<open>computerMove\<close> returns the smallest such
  index; where there is none, but writing the opponent's mark into some empty cell makes
  \<^verbatim>\<open>checkWinner\<close> return the opponent's mark, it returns the smallest such index.
  The win comes before the block, and neither depends on the random number.
\<close>

theorem computerMove_win_then_block:
  assumes wf: "wf_board brd"
  shows "(idx < 9 \<and> brd ! idx = Null
          \<and> checkWinner (brd[idx := Mk aiMark]) = Some (Won aiMark)
          \<and> (\<forall>j<idx. \<not> (brd ! j = Null
                \<and> checkWinner (brd[j := Mk aiMark]) = Some (Won aiMark)))
          \<longrightarrow> computerMove u brd aiMark humanMark = Some idx)
       \<and> ((\<forall>j<9. \<not> (brd ! j = Null
                \<and> checkWinner (brd[j := Mk aiMark]) = Some (Won aiMark)))
          \<and> idx < 9 \<and> brd ! idx = Null
          \<and> checkWinner (brd[idx := Mk humanMark]) = Some (Won humanMark)
          \<and> (\<forall>j<idx. \<not> (brd ! j = Null
                \<and> checkWinner (brd[j := Mk humanMark]) = Some (Won humanMark)))
          \<longrightarrow> computerMove u brd aiMark humanMark = Some idx)"
proof (intro conjI impI)
  from wf have len: "length brd = 9" by (simp add: wf_board_def)
  {
    assume "idx < 9 \<and> brd ! idx = Null
          \<and> checkWinner (brd[idx := Mk aiMark]) = Some (Won aiMark)
          \<and> (\<forall>j<idx. \<not> (brd ! j = Null
                \<and> checkWinner (brd[j := Mk aiMark]) = Some (Won aiMark)))"
    then have "find (\<lambda>i. checkWinner (hypothetical brd i aiMark) = Some (Won aiMark))
                 (getAvailableMoves brd) = Some idx"
      using wf len by (intro find_available_first) (auto simp: wf_hypothetical)
    then show "computerMove u brd aiMark humanMark = Some idx"
      by (simp add: computerMove_def)
  }
  {
    assume a: "(\<forall>j<9. \<not> (brd ! j = Null
                \<and> checkWinner (brd[j := Mk aiMark]) = Some (Won aiMark)))
          \<and> idx < 9 \<and> brd ! idx = Null
          \<and> checkWinner (brd[idx := Mk humanMark]) = Some (Won humanMark)
          \<and> (\<forall>j<idx. \<not> (brd ! j = Null
                \<and> checkWinner (brd[j := Mk humanMark]) = Some (Won humanMark)))"
    then have "find (\<lambda>i. checkWinner (hypothetical brd i aiMark) = Some (Won aiMark))
                 (getAvailableMoves brd) = None"
      using wf len by (intro find_available_none) (auto simp: wf_hypothetical)
    moreover from a
    have "find (\<lambda>i. checkWinner (hypothetical brd i humanMark) = Some (Won humanMark))
            (getAvailableMoves brd) = Some idx"
      using wf len by (intro find_available_first) (auto simp: wf_hypothetical)
    ultimately show "computerMove u brd aiMark humanMark = Some idx"
      by (simp add: computerMove_def)
  }
qed

theorem computerMove_win_then_block_witness:
  "computerMove 0 [Mk MarkO, Mk MarkO, Null, Mk MarkX, Mk MarkX, Null, Null, Null, Null]
     MarkO MarkX = Some 2
   \<and> computerMove 0 [Mk MarkX, Null, Null, Mk MarkO, Null, Null, Null, Null, Mk MarkX]
     MarkO MarkX = Some 4"
proof -
  let ?w = "[Mk MarkO, Mk MarkO, Null, Mk MarkX, Mk MarkX, Null, Null, Null, Null]"
  let ?b = "[Mk MarkX, Null, Null, Mk MarkO, Null, Null, Null, Null, Mk MarkX]"
  note ev = checkWinner_def lines_def cell_at_def every_cell_def
  have 1: "wf_board ?w" by (simp add: wf_board_def)
  have 2: "wf_board ?b" by (simp add: wf_board_def)
  have w: "(2::nat) < 9 \<and> ?w ! 2 = Null
          \<and> checkWinner (?w[2 := Mk MarkO]) = Some (Won MarkO)
          \<and> (\<forall>j<2. \<not> (?w ! j = Null \<and> checkWinner (?w[j := Mk MarkO]) = Some (Won MarkO)))"
    by (simp add: ev All_less_Suc numeral_2_eq_2)
  have b: "(\<forall>j<9. \<not> (?b ! j = Null \<and> checkWinner (?b[j := Mk MarkO]) = Some (Won MarkO)))
          \<and> (4::nat) < 9 \<and> ?b ! 4 = Null
          \<and> checkWinner (?b[4 := Mk MarkX]) = Some (Won MarkX)
          \<and> (\<forall>j<4. \<not> (?b ! j = Null \<and> checkWinner (?b[j := Mk MarkX]) = Some (Won MarkX)))"
    by (simp add: ev All_less_Suc numeral_nat)
  from computerMove_win_then_block
         [OF 1, where idx = 2 and aiMark = MarkO and humanMark = MarkX and u = 0] w
       computerMove_win_then_block
         [OF 2, where idx = 4 and aiMark = MarkO and humanMark = MarkX and u = 0] b
  show ?thesis by blast
qed

text \<open>
  C4, as the code has it. On the board \<open>[X, X, empty, O, O, empty, empty, empty, empty]\<close>
  with the computer playing O against X, \<^verbatim>\<open>computerMove\<close> returns index 5, whatever
  the random number: O at 5 completes the triple \<open>[3,4,5]\<close>, and the win is looked for
  before the block at index 2.
\<close>

theorem computerMove_scenario_takes_win:
  "computerMove u [Mk MarkX, Mk MarkX, Null, Mk MarkO, Mk MarkO, Null, Null, Null, Null]
     MarkO MarkX = Some 5"
  by (simp add: computerMove_def getAvailableMoves_def upt_conv_Cons hypothetical_def
      assign_def spread_def checkWinner_def lines_def cell_at_def every_cell_def)

text \<open>C4, as the claim has it (the result is index 2), fails.\<close>

theorem computerMove_scenario_not_block:
  "computerMove 0 [Mk MarkX, Mk MarkX, Null, Mk MarkO, Mk MarkO, Null, Null, Null, Null]
     MarkO MarkX \<noteq> Some 2"
  by (simp add: computerMove_def getAvailableMoves_def upt_conv_Cons hypothetical_def
      assign_def spread_def checkWinner_def lines_def cell_at_def every_cell_def)

lemma pick_in_range:
  assumes "0 \<le> u" and "u < 1" and "arr \<noteq> []"
  shows "\<exists>x \<in> set arr. pick u arr = Some x"
proof -
  let ?n = "length arr"
  from assms(3) have n: "0 < real ?n" by simp
  with assms(2) have "u * real ?n < real ?n" by simp
  then have "\<lfloor>u * real ?n\<rfloor> < int ?n" by linarith
  moreover from assms(1) have "0 \<le> \<lfloor>u * real ?n\<rfloor>" by simp
  ultimately have "nat \<lfloor>u * real ?n\<rfloor> < ?n" by linarith
  then show ?thesis by (auto simp: pick_def Let_def)
qed

lemma computerMove_shape:
  assumes wf: "wf_board brd" and u: "0 \<le> u" "u < 1"
  shows "case computerMove u brd aiMark humanMark of
           Some i \<Rightarrow> i < 9 \<and> brd ! i = Null
         | None \<Rightarrow> getAvailableMoves brd = []"
proof -
  from wf have len: "length brd = 9" by (simp add: wf_board_def)
  let ?w = "find (\<lambda>idx. checkWinner (hypothetical brd idx aiMark) = Some (Won aiMark))
              (getAvailableMoves brd)"
  let ?b = "find (\<lambda>idx. checkWinner (hypothetical brd idx humanMark) = Some (Won humanMark))
              (getAvailableMoves brd)"
  let ?corners = "filter (\<lambda>i. nullish (cell_at brd i)) [0, 2, 6, 8]"
  have avail: "\<And>i. i \<in> set (getAvailableMoves brd) \<Longrightarrow> i < 9 \<and> brd ! i = Null"
    using len by (simp add: set_getAvailableMoves)
  have nullish_wf: "\<And>i. i < 9 \<Longrightarrow> nullish (cell_at brd i) \<Longrightarrow> brd ! i = Null"
    using wf_nth[OF wf] wf_cell_at[OF wf] by fastforce
  show ?thesis
  proof (cases ?w)
    case (Some i)
    then show ?thesis
      using avail[OF find_Some_mem[OF Some]] by (simp add: computerMove_def)
  next
    case wn: None
    show ?thesis
    proof (cases ?b)
      case (Some i)
      then show ?thesis
        using wn avail[OF find_Some_mem[OF Some]] by (simp add: computerMove_def)
    next
      case bn: None
      show ?thesis
      proof (cases "nullish (cell_at brd 4)")
        case True
        then show ?thesis
          using wn bn nullish_wf[of 4] by (simp add: computerMove_def)
      next
        case c4: False
        show ?thesis
        proof (cases "?corners = []")
          case False
          from pick_in_range[OF u False]
          obtain x where x: "x \<in> set ?corners" "pick u ?corners = Some x"
            by blast
          from x(1) have "x < 9 \<and> nullish (cell_at brd x)"
            unfolding set_filter by auto
          then have "x < 9 \<and> brd ! x = Null" using nullish_wf by blast
          then show ?thesis using wn bn c4 False x(2)
            by (simp add: computerMove_def Let_def)
        next
          case cn: True
          show ?thesis
          proof (cases "getAvailableMoves brd = []")
            case True
            then show ?thesis using wn bn c4 cn by (simp add: computerMove_def Let_def)
          next
            case False
            from pick_in_range[OF u False] obtain x where
              x: "x \<in> set (getAvailableMoves brd)" "pick u (getAvailableMoves brd) = Some x"
              by blast
            then show ?thesis using wn bn c4 cn False avail[OF x(1)]
              by (simp add: computerMove_def Let_def)
          qed
        qed
      qed
    qed
  qed
qed

text \<open>
  C5. On a nine-cell board with at least one empty cell, \<^verbatim>\<open>computerMove\<close> returns
  an index whose cell is empty, whatever number \<open>0 \<le> u < 1\<close> \<^verbatim>\<open>Math.random\<close> gives;
  and it returns \<^verbatim>\<open>null\<close> exactly when no cell of the board is empty.
\<close>

theorem computerMove_returns_empty_cell:
  assumes wf: "wf_board brd" and u: "0 \<le> u" "u < 1"
  shows "((\<exists>i<9. brd ! i = Null) \<longrightarrow>
            (\<exists>i<9. computerMove u brd aiMark humanMark = Some i \<and> brd ! i = Null))
       \<and> (computerMove u brd aiMark humanMark = None) = (\<forall>i<9. brd ! i \<noteq> Null)"
proof -
  from wf have len: "length brd = 9" by (simp add: wf_board_def)
  have e: "(getAvailableMoves brd = []) = (\<forall>i<9. brd ! i \<noteq> Null)"
    using set_getAvailableMoves[of brd] len by (auto simp flip: set_empty)
  from computerMove_shape[OF wf u, of aiMark humanMark] e show ?thesis
    by (cases "computerMove u brd aiMark humanMark") auto
qed

theorem computerMove_returns_empty_cell_witness:
  "wf_board [Mk MarkX, Null, Null, Null, Mk MarkO, Null, Null, Null, Null]
   \<and> (\<exists>i<9. computerMove (1/2) [Mk MarkX, Null, Null, Null, Mk MarkO, Null, Null, Null, Null]
               MarkO MarkX = Some i
         \<and> [Mk MarkX, Null, Null, Null, Mk MarkO, Null, Null, Null, Null] ! i = Null)
   \<and> computerMove (1/2)
       [Mk MarkX, Mk MarkO, Mk MarkX, Mk MarkX, Mk MarkO, Mk MarkO, Mk MarkO, Mk MarkX, Mk MarkX]
       MarkO MarkX = None"
proof -
  let ?p = "[Mk MarkX, Null, Null, Null, Mk MarkO, Null, Null, Null, Null]"
  let ?f = "[Mk MarkX, Mk MarkO, Mk MarkX, Mk MarkX, Mk MarkO, Mk MarkO, Mk MarkO, Mk MarkX, Mk MarkX]"
  have 1: "wf_board ?p" by (simp add: wf_board_def)
  have 2: "wf_board ?f" by (simp add: wf_board_def)
  have u: "(0::real) \<le> 1/2" "(1/2::real) < 1" by simp_all
  have e: "\<exists>i<9. ?p ! i = Null" by (intro exI[of _ 1]) simp
  have f: "\<forall>i<9. ?f ! i \<noteq> Null" by (simp add: All_less_Suc numeral_nat)
  from computerMove_returns_empty_cell[OF 1 u, where aiMark = MarkO and humanMark = MarkX]
       computerMove_returns_empty_cell[OF 2 u, where aiMark = MarkO and humanMark = MarkX]
       1 e f
  show ?thesis by blast
qed

section \<open>Properties of the handlers\<close>

text \<open>
  C6. A click, or a call of \<^verbatim>\<open>makeMove\<close>, changes no part of the state (board, turn,
  mode, result, active flag) when the game is not active or the cell already holds a mark;
  a click changes nothing either when, in single-player mode, it is not X's turn.
\<close>

theorem rejected_move_changes_nothing:
  "(\<not> gameActive s \<or> (\<exists>m. cell_at (board s) idx = Mk m) \<or> (mode s = SINGLE \<and> \<not> isXTurn s)
      \<longrightarrow> handleCellClick s idx = s)
   \<and> (\<not> gameActive s \<or> (\<exists>m. cell_at (board s) idx = Mk m) \<longrightarrow> makeMove s idx = s)"
  by (auto simp: handleCellClick_def makeMove_def)

theorem rejected_move_changes_nothing_witness:
  "handleCellClick (initial\<lparr>gameActive := False\<rparr>) 0 = initial\<lparr>gameActive := False\<rparr>
   \<and> makeMove (initial\<lparr>gameActive := False\<rparr>) 0 = initial\<lparr>gameActive := False\<rparr>
   \<and> handleCellClick
        (initial\<lparr>mode := TWO,
                 board := [Mk MarkX, Null, Null, Null, Null, Null, Null, Null, Null],
                 isXTurn := False\<rparr>) 0
       = initial\<lparr>mode := TWO,
                 board := [Mk MarkX, Null, Null, Null, Null, Null, Null, Null, Null],
                 isXTurn := False\<rparr>
   \<and> handleCellClick
        (initial\<lparr>board := [Mk MarkX, Null, Null, Null, Null, Null, Null, Null, Null],
                 isXTurn := False\<rparr>) 1
       = initial\<lparr>board := [Mk MarkX, Null, Null, Null, Null, Null, Null, Null, Null],
                 isXTurn := False\<rparr>"
proof -
  let ?b = "[Mk MarkX, Null, Null, Null, Null, Null, Null, Null, Null]"
  have 1: "\<not> gameActive (initial\<lparr>gameActive := False\<rparr>)" by simp
  have 2: "\<exists>m. cell_at (board (initial\<lparr>mode := TWO, board := ?b, isXTurn := False\<rparr>)) 0 = Mk m"
    by (simp add: cell_at_def)
  have 3: "mode (initial\<lparr>board := ?b, isXTurn := False\<rparr>) = SINGLE
           \<and> \<not> isXTurn (initial\<lparr>board := ?b, isXTurn := False\<rparr>)"
    by (simp add: initial_def)
  from rejected_move_changes_nothing[of "initial\<lparr>gameActive := False\<rparr>" 0] 1
       rejected_move_changes_nothing
         [of "initial\<lparr>mode := TWO, board := ?b, isXTurn := False\<rparr>" 0] 2
       rejected_move_changes_nothing[of "initial\<lparr>board := ?b, isXTurn := False\<rparr>" 1] 3
  show ?thesis by blast
qed

lemma wf_assign: "wf_board brd \<Longrightarrow> idx < 9 \<Longrightarrow> assign (spread brd) idx v = brd[idx := v]"
  by (simp add: wf_spread assign_def wf_board_def)

text \<open>
  C7. When the game is active, the cell at \<open>idx\<close> is empty and, in single-player mode, it
  is X's turn, a click followed by the effect of the next render writes the mark of the
  player to move at \<open>idx\<close>, leaves the other eight cells and the mode as they were, flips
  the turn, stores \<^verbatim>\<open>checkWinner\<close> of the new board as the result, and leaves the
  game active exactly when that result is \<^verbatim>\<open>null\<close>. \<^verbatim>\<open>makeMove\<close> called
  directly does the same.
\<close>

theorem accepted_move_applied:
  assumes wf: "wf_board (board s)" and idx: "idx < 9"
    and active: "gameActive s" and empty: "board s ! idx = Null"
    and turn: "mode s = SINGLE \<longrightarrow> isXTurn s"
  shows "let s' = boardEffect (handleCellClick s idx) in
           board s' = (board s)[idx := Mk (if isXTurn s then MarkX else MarkO)]
         \<and> board s' ! idx = Mk (if isXTurn s then MarkX else MarkO)
         \<and> (\<forall>j<9. j \<noteq> idx \<longrightarrow> board s' ! j = board s ! j)
         \<and> mode s' = mode s
         \<and> isXTurn s' = (\<not> isXTurn s)
         \<and> winner s' = checkWinner (board s')
         \<and> gameActive s' = (winner s' = None)
         \<and> boardEffect (makeMove s idx) = s'"
proof -
  from wf have len: "length (board s) = 9" by (simp add: wf_board_def)
  from wf idx empty have c: "cell_at (board s) idx = Null" by (simp add: wf_cell_at)
  from c active have mm: "makeMove s idx =
      s\<lparr>board := (board s)[idx := Mk (if isXTurn s then MarkX else MarkO)],
        isXTurn := \<not> isXTurn s\<rparr>"
    by (simp add: makeMove_def wf_assign[OF wf idx])
  from c turn have hc: "handleCellClick s idx = makeMove s idx"
    by (simp add: handleCellClick_def)
  show ?thesis
    unfolding hc mm using idx len by (simp add: boardEffect_def Let_def)
qed

theorem accepted_move_applied_witness:
  "board (boardEffect (handleCellClick initial 4))
     = [Null, Null, Null, Null, Mk MarkX, Null, Null, Null, Null]
   \<and> \<not> isXTurn (boardEffect (handleCellClick initial 4))
   \<and> gameActive (boardEffect (handleCellClick initial 4))
   \<and> board (boardEffect (handleCellClick
        \<lparr>mode = TWO,
         board = [Mk MarkX, Mk MarkX, Null, Mk MarkO, Mk MarkO, Null, Null, Null, Mk MarkX],
         isXTurn = False, winner = None, gameActive = True\<rparr> 5))
       = [Mk MarkX, Mk MarkX, Null, Mk MarkO, Mk MarkO, Mk MarkO, Null, Null, Mk MarkX]
   \<and> winner (boardEffect (handleCellClick
        \<lparr>mode = TWO,
         board = [Mk MarkX, Mk MarkX, Null, Mk MarkO, Mk MarkO, Null, Null, Null, Mk MarkX],
         isXTurn = False, winner = None, gameActive = True\<rparr> 5)) = Some (Won MarkO)
   \<and> \<not> gameActive (boardEffect (handleCellClick
        \<lparr>mode = TWO,
         board = [Mk MarkX, Mk MarkX, Null, Mk MarkO, Mk MarkO, Null, Null, Null, Mk MarkX],
         isXTurn = False, winner = None, gameActive = True\<rparr> 5))"
proof -
  let ?b = "[Mk MarkX, Mk MarkX, Null, Mk MarkO, Mk MarkO, Null, Null, Null, Mk MarkX]"
  let ?s = "\<lparr>mode = TWO, board = ?b, isXTurn = False, winner = None, gameActive = True\<rparr>"
  have i: "wf_board (board initial)" "(4::nat) < 9" "gameActive initial"
    "board initial ! 4 = Null" "mode initial = SINGLE \<longrightarrow> isXTurn initial"
    by (simp_all add: initial_def getInitialBoard_def wf_board_def list_all_iff)
  have t: "wf_board (board ?s)" "(5::nat) < 9" "gameActive ?s" "board ?s ! 5 = Null"
    "mode ?s = SINGLE \<longrightarrow> isXTurn ?s"
    by (simp_all add: wf_board_def)
  have w: "checkWinner [Mk MarkX, Mk MarkX, Null, Mk MarkO, Mk MarkO, Mk MarkO, Null, Null, Mk MarkX]
      = Some (Won MarkO)"
    by (simp add: checkWinner_def lines_def cell_at_def)
  have n: "checkWinner [Null, Null, Null, Null, Mk MarkX, Null, Null, Null, Null] = None"
    by (simp add: checkWinner_def lines_def cell_at_def every_cell_def)
  from accepted_move_applied[OF i] accepted_move_applied[OF t] w n show ?thesis
    by (simp add: Let_def initial_def getInitialBoard_def numeral_nat)
qed

lemma checkWinner_initial: "checkWinner getInitialBoard = None"
  by (simp add: getInitialBoard_def checkWinner_def lines_def cell_at_def every_cell_def
      list_all_iff)

text \<open>
  C8. After \<^verbatim>\<open>handleRestart\<close>, whatever the state before, the board is nine empty
  cells, it is X's turn, the result is \<^verbatim>\<open>null\<close> (in progress) and the game is
  active; the mode is kept, and the effect of the next render changes none of this. The
  handler has no failing branch.
\<close>

theorem handleRestart_resets:
  "board (handleRestart s) = replicate 9 Null
   \<and> isXTurn (handleRestart s)
   \<and> winner (handleRestart s) = None
   \<and> gameActive (handleRestart s)
   \<and> mode (handleRestart s) = mode s
   \<and> boardEffect (handleRestart s) = handleRestart s"
  using checkWinner_initial
  by (simp add: handleRestart_def boardEffect_def getInitialBoard_def)

section \<open>The balance of marks\<close>

lemma count_list_update:
  "i < length xs \<Longrightarrow> xs ! i \<noteq> c \<Longrightarrow>
     count_list (xs[i := v]) c = count_list xs c + (if v = c then 1 else 0)"
  by (induction xs arbitrary: i) (auto split: nat.splits)

lemma count_list_replicate_other: "v \<noteq> c \<Longrightarrow> count_list (replicate n v) c = 0"
  by (induction n) auto

lemma count_list_spread: "count_list (spread brd) (Mk m) = count_list brd (Mk m)"
  by (induction brd) (auto simp: spread_def split: cell.splits)

lemma length_spread: "length (spread brd) = length brd"
  by (simp add: spread_def)

lemma spread_nth: "i < length brd \<Longrightarrow> spread brd ! i = cell_at brd i"
  by (simp add: spread_def cell_at_def)

lemma count_list_assign:
  assumes "\<not> truthy (cell_at brd i)"
  shows "count_list (assign (spread brd) i (Mk m)) (Mk m') =
         count_list brd (Mk m') + (if m = m' then 1 else 0)"
proof (cases "i < length brd")
  case True
  with assms have "spread brd ! i \<noteq> Mk m'"
    by (auto simp: spread_nth)
  with True have "count_list ((spread brd)[i := Mk m]) (Mk m') =
      count_list (spread brd) (Mk m') + (if Mk m = Mk m' then 1 else 0)"
    by (intro count_list_update) (simp_all add: length_spread)
  with True show ?thesis
    by (simp add: assign_def length_spread count_list_spread)
next
  case False
  then show ?thesis
    by (simp add: assign_def length_spread count_list_replicate_other count_list_spread)
qed

lemma balance_makeMove:
  assumes "balance s = (if isXTurn s then 0 else 1)"
  shows "balance (makeMove s idx) = (if isXTurn (makeMove s idx) then 0 else 1)"
  using assms by (auto simp: makeMove_def balance_def count_list_assign)

lemma balance_click:
  assumes "balance s = (if isXTurn s then 0 else 1)"
  shows "balance (handleCellClick s idx) = (if isXTurn (handleCellClick s idx) then 0 else 1)"
  using assms balance_makeMove[of s idx] by (simp add: handleCellClick_def)

text \<open>
  C10. In every state reached from the initial one by moves (accepted or not), clicks,
  restarts, the effect and changes of mode, the number of X cells minus the number of O
  cells is 0 when it is X's turn and 1 when it is O's turn; so the two counts never differ
  by more than one.
\<close>

theorem mark_counts_follow_turn:
  assumes "reachable s"
  shows "int (count_list (board s) (Mk MarkX)) - int (count_list (board s) (Mk MarkO))
         = (if isXTurn s then 0 else 1)"
  using assms
proof (induction rule: reachable.induct)
  case reach_initial
  show ?case by (simp add: initial_def getInitialBoard_def count_list_replicate_other)
next
  case (reach_makeMove s idx)
  then show ?case using balance_makeMove[of s idx] by (simp add: balance_def)
next
  case (reach_click s idx)
  then show ?case using balance_click[of s idx] by (simp add: balance_def)
next
  case (reach_restart s)
  show ?case by (simp add: handleRestart_def getInitialBoard_def count_list_replicate_other)
next
  case (reach_effect s)
  then show ?case by (simp add: boardEffect_def)
next
  case (reach_setMode s m)
  then show ?case by simp
qed

theorem mark_counts_follow_turn_witness:
  "reachable (makeMove initial 4)
   \<and> int (count_list (board (makeMove initial 4)) (Mk MarkX))
       - int (count_list (board (makeMove initial 4)) (Mk MarkO)) = 1
   \<and> \<not> isXTurn (makeMove initial 4)"
proof -
  have r: "reachable (makeMove initial 4)"
    by (intro reach_makeMove reach_initial)
  have x: "\<not> isXTurn (makeMove initial 4)"
    by (simp add: makeMove_def initial_def getInitialBoard_def cell_at_def)
  from mark_counts_follow_turn[OF r] r x show ?thesis by simp
qed

section \<open>The pending computer move\<close>

lemma mounted_eq: "mounted = \<lparr>cur = initial, timer = None\<rparr>"
  using checkWinner_initial
  by (simp add: mounted_def afterRender_def runEffect_def clearTimeout_def handleRestart_def initial_def Let_def)

lemma makeMoveFrom_self: "makeMoveFrom s idx s = makeMove s idx"
  by (simp add: makeMoveFrom_def makeMove_def)

lemma makeMove_cases:
  "makeMove s idx = s \<or>
   (gameActive s \<and> \<not> truthy (cell_at (board s) idx) \<and> makeMove s idx \<noteq> s
     \<and> isXTurn (makeMove s idx) = (\<not> isXTurn s) \<and> mode (makeMove s idx) = mode s
     \<and> gameActive (makeMove s idx))"
  by (auto simp: makeMove_def)

lemma timer_Restart: "timer (step Restart a) = None"
  using checkWinner_initial
  by (simp add: commit_def afterRender_def runEffect_def clearTimeout_def handleRestart_def Let_def)

lemma timer_SetMode: "m \<noteq> mode (cur a) \<Longrightarrow> timer (step (SetMode m) a) = None"
  using checkWinner_initial
  by (simp add: commit_def afterRender_def runEffect_def clearTimeout_def handleRestart_def Let_def)

lemma afterRender_idle:
  "\<not> fresh \<Longrightarrow> isXTurn (cur a) = isXTurn p \<Longrightarrow> mode (cur a) = mode p \<Longrightarrow> afterRender p fresh a = a"
  by (simp add: afterRender_def)

lemma afterRender_run:
  "mode (cur a) = mode p \<Longrightarrow> fresh \<or> isXTurn (cur a) \<noteq> isXTurn p \<Longrightarrow>
     afterRender p fresh a = runEffect (cur a) (clearTimeout a)"
  by (simp add: afterRender_def)

lemma runEffect_cur:
  "cur (runEffect r a) = (cur a)\<lparr>winner := checkWinner (board r), gameActive := (checkWinner (board r) = None)\<rparr>"
  by (simp add: runEffect_def Let_def)

lemma runEffect_timer:
  "timer (runEffect r a) =
     (if mode r = SINGLE \<and> \<not> isXTurn r \<and> checkWinner (board r) = None then Some r else timer a)"
  by (simp add: runEffect_def Let_def)

lemma afterRender_mode: "mode (cur (afterRender p fresh a)) = mode (cur a)"
  by (simp add: afterRender_def runEffect_cur clearTimeout_def handleRestart_def Let_def)

lemma afterRender_isXTurn:
  "mode (cur a) = mode p \<Longrightarrow> isXTurn (cur (afterRender p fresh a)) = isXTurn (cur a)"
  by (simp add: afterRender_def runEffect_cur clearTimeout_def Let_def)

lemma commit_same_mode: "mode (cur a) = mode p \<Longrightarrow> commit p fresh a = afterRender p fresh a"
  unfolding commit_def
  by (intro afterRender_idle) (simp_all add: afterRender_mode afterRender_isXTurn)

lemma settled:
  "afterRender (cur (afterRender p fresh a)) False (commit p fresh a) = commit p fresh a"
  unfolding commit_def
  by (intro afterRender_idle) (simp_all add: afterRender_mode afterRender_isXTurn)

lemma handleCellClick_cases:
  "handleCellClick s idx = s \<or> handleCellClick s idx = makeMove s idx"
  by (simp add: handleCellClick_def)

lemma timer_fresh_Click:
  assumes "timer_fresh a"
  shows "timer_fresh (step (Click idx) a)"
proof -
  let ?c = "cur a"
  let ?n = "handleCellClick ?c idx"
  show ?thesis
  proof (cases "?n = ?c")
    case True
    then have "step (Click idx) a = a"
      by (simp add: Let_def commit_same_mode afterRender_idle)
    with assms show ?thesis by simp
  next
    case False
    with handleCellClick_cases[of ?c idx] have n: "?n = makeMove ?c idx" by auto
    with False makeMove_cases[of ?c idx]
    have m: "gameActive ?c" "isXTurn ?n = (\<not> isXTurn ?c)" "mode ?n = mode ?c" "gameActive ?n"
      by auto
    from False m have "step (Click idx) a = runEffect ?n (clearTimeout (a\<lparr>cur := ?n\<rparr>))"
      by (simp add: Let_def commit_same_mode afterRender_run)
    then show ?thesis using m
      by (simp add: timer_fresh_def runEffect_cur runEffect_timer clearTimeout_def)
  qed
qed

lemma timer_fresh_Restart: "timer_fresh (step Restart a)"
  using timer_Restart[of a] by (simp add: timer_fresh_def)

lemma timer_fresh_SetMode:
  assumes "timer_fresh a"
  shows "timer_fresh (step (SetMode m) a)"
proof (cases "m = mode (cur a)")
  case True
  then have "step (SetMode m) a = a"
    by (simp add: commit_same_mode afterRender_idle)
  with assms show ?thesis by simp
next
  case False
  with timer_SetMode[of m a] show ?thesis by (simp add: timer_fresh_def)
qed

lemma timeoutCallback_agree:
  assumes "board r = board c" "isXTurn r = isXTurn c" "gameActive r = gameActive c"
  shows "timeoutCallback u r c =
           (case computerMove u (board c) MarkO MarkX of
              None \<Rightarrow> c
            | Some idx \<Rightarrow> if nullish (cell_at (board c) idx) then makeMove c idx else c)"
  using assms by (simp add: timeoutCallback_def makeMoveFrom_def makeMove_def split: option.splits)

lemma step_Timeout_fresh:
  assumes inv: "timer_fresh a" and t: "timer a = Some r"
  shows "step (Timeout u) a = \<lparr>cur = cur a, timer = None\<rparr>
       \<or> (\<exists>idx. computerMove u (board (cur a)) MarkO MarkX = Some idx
             \<and> nullish (cell_at (board (cur a)) idx)
             \<and> makeMove (cur a) idx \<noteq> cur a
             \<and> step (Timeout u) a = \<lparr>cur = boardEffect (makeMove (cur a) idx), timer = None\<rparr>)"
proof -
  let ?c = "cur a"
  let ?n = "timeoutCallback u r ?c"
  from inv t have r: "board r = board ?c" "isXTurn r = isXTurn ?c" "gameActive r = gameActive ?c"
    "\<not> isXTurn ?c"
    by (simp_all add: timer_fresh_def)
  note cb = timeoutCallback_agree[OF r(1-3), of u]
  show ?thesis
  proof (cases "?n = ?c")
    case True
    with t have "step (Timeout u) a = \<lparr>cur = ?c, timer = None\<rparr>"
      by (simp add: Let_def commit_same_mode afterRender_idle)
    then show ?thesis by simp
  next
    case False
    with cb obtain idx where i: "computerMove u (board ?c) MarkO MarkX = Some idx"
      "nullish (cell_at (board ?c) idx)" "?n = makeMove ?c idx"
      by (auto split: option.splits if_splits)
    with False makeMove_cases[of ?c idx] r(4)
    have m: "isXTurn ?n" "mode ?n = mode ?c" "?n \<noteq> ?c" by auto
    with t r(4) have "step (Timeout u) a = runEffect ?n (clearTimeout \<lparr>cur = ?n, timer = None\<rparr>)"
      by (simp add: Let_def commit_same_mode afterRender_run)
    also have "\<dots> = \<lparr>cur = boardEffect ?n, timer = None\<rparr>"
      using m(1) by (simp add: runEffect_def clearTimeout_def boardEffect_def Let_def)
    finally show ?thesis using i m by auto
  qed
qed

lemma timer_fresh_Timeout:
  assumes "timer_fresh a"
  shows "timer_fresh (step (Timeout u) a)"
proof (cases "timer a")
  case None
  with assms show ?thesis by simp
next
  case (Some r)
  from step_Timeout_fresh[OF assms Some, of u] show ?thesis
    by (auto simp: timer_fresh_def)
qed

lemma reachable_timer_fresh: "app_reachable a \<Longrightarrow> timer_fresh a"
proof (induction rule: app_reachable.induct)
  case reach_mounted
  show ?case by (simp add: mounted_eq timer_fresh_def)
next
  case (reach_step a e)
  then show ?case
    by (cases e) (simp_all only: timer_fresh_Click timer_fresh_Restart timer_fresh_SetMode timer_fresh_Timeout)
qed


text \<open>
  C9. In every state of the component: the restart and a change of mode leave no pending
  callback; a pending callback has captured the board, the turn and the mode of the
  current state, so it was not scheduled for a board that has changed since; and when the
  timer changes the state, the mode is single-player, it is O's turn, the game is open,
  the cell that \<^verbatim>\<open>computerMove\<close> chose is empty in the current board, and the new
  state is \<^verbatim>\<open>makeMove\<close> of the current state at that cell, followed by the effect.
\<close>

theorem pending_move_never_stale:
  assumes "app_reachable a"
  shows "timer (step Restart a) = None
       \<and> (m \<noteq> mode (cur a) \<longrightarrow> timer (step (SetMode m) a) = None)
       \<and> (\<forall>r. timer a = Some r \<longrightarrow>
             board r = board (cur a) \<and> isXTurn r = isXTurn (cur a) \<and> mode r = mode (cur a))
       \<and> (cur (step (Timeout u) a) \<noteq> cur a \<longrightarrow>
             mode (cur a) = SINGLE \<and> \<not> isXTurn (cur a) \<and> gameActive (cur a)
             \<and> checkWinner (board (cur a)) = None
             \<and> (\<exists>idx. computerMove u (board (cur a)) MarkO MarkX = Some idx
                   \<and> nullish (cell_at (board (cur a)) idx)
                   \<and> cur (step (Timeout u) a) = boardEffect (makeMove (cur a) idx)))"
proof -
  from assms have inv: "timer_fresh a" by (rule reachable_timer_fresh)
  have 1: "timer (step Restart a) = None" by (rule timer_Restart)
  have 2: "m \<noteq> mode (cur a) \<longrightarrow> timer (step (SetMode m) a) = None"
    using timer_SetMode by blast
  have 3: "\<forall>r. timer a = Some r \<longrightarrow>
             board r = board (cur a) \<and> isXTurn r = isXTurn (cur a) \<and> mode r = mode (cur a)"
    using inv by (auto simp: timer_fresh_def)
  have 4: "cur (step (Timeout u) a) \<noteq> cur a \<longrightarrow>
             mode (cur a) = SINGLE \<and> \<not> isXTurn (cur a) \<and> gameActive (cur a)
             \<and> checkWinner (board (cur a)) = None
             \<and> (\<exists>idx. computerMove u (board (cur a)) MarkO MarkX = Some idx
                   \<and> nullish (cell_at (board (cur a)) idx)
                   \<and> cur (step (Timeout u) a) = boardEffect (makeMove (cur a) idx))"
  proof (cases "timer a")
    case None
    then show ?thesis by simp
  next
    case (Some r)
    from inv Some have "mode (cur a) = SINGLE \<and> \<not> isXTurn (cur a) \<and> gameActive (cur a)
             \<and> checkWinner (board (cur a)) = None"
      by (simp add: timer_fresh_def)
    with step_Timeout_fresh[OF inv Some, of u] show ?thesis by auto
  qed
  from 1 2 3 4 show ?thesis by blast
qed

lemma click4:
  "step (Click 4) mounted =
    \<lparr>cur = \<lparr>mode = SINGLE, board = [Null, Null, Null, Null, Mk MarkX, Null, Null, Null, Null],
             isXTurn = False, winner = None, gameActive = True\<rparr>,
     timer = Some \<lparr>mode = SINGLE,
                   board = [Null, Null, Null, Null, Mk MarkX, Null, Null, Null, Null],
                   isXTurn = False, winner = None, gameActive = True\<rparr>\<rparr>"
proof -
  define n where "n = \<lparr>mode = SINGLE,
      board = [Null, Null, Null, Null, Mk MarkX, Null, Null, Null, Null],
      isXTurn = False, winner = None, gameActive = True\<rparr>"
  have cw: "checkWinner (board n) = None"
    by (simp add: n_def checkWinner_def lines_def cell_at_def every_cell_def)
  have h: "handleCellClick initial 4 = n"
    by (simp add: n_def handleCellClick_def makeMove_def initial_def getInitialBoard_def
        cell_at_def assign_def spread_def numeral_nat)
  have ne: "n \<noteq> initial" by (simp add: n_def initial_def)
  have "step (Click 4) mounted = commit initial True \<lparr>cur = n, timer = None\<rparr>"
    using h ne by (simp add: mounted_eq Let_def)
  also have "\<dots> = afterRender initial True \<lparr>cur = n, timer = None\<rparr>"
    by (rule commit_same_mode) (simp add: n_def initial_def)
  also have "\<dots> = runEffect n (clearTimeout \<lparr>cur = n, timer = None\<rparr>)"
    using afterRender_run[of "\<lparr>cur = n, timer = None\<rparr>" initial True]
    by (simp add: n_def initial_def)
  also have "\<dots> = \<lparr>cur = n, timer = Some n\<rparr>"
    using cw by (simp add: runEffect_def clearTimeout_def Let_def) (simp add: n_def)
  finally show ?thesis by (simp add: n_def)
qed

lemma timeout_after_click4:
  "step (Timeout 0) (step (Click 4) mounted) =
    \<lparr>cur = \<lparr>mode = SINGLE, board = [Mk MarkO, Null, Null, Null, Mk MarkX, Null, Null, Null, Null],
             isXTurn = True, winner = None, gameActive = True\<rparr>,
     timer = None\<rparr>"
proof -
  define n where "n = \<lparr>mode = SINGLE,
      board = [Null, Null, Null, Null, Mk MarkX, Null, Null, Null, Null],
      isXTurn = False, winner = None, gameActive = True\<rparr>"
  define n' where "n' = \<lparr>mode = SINGLE,
      board = [Mk MarkO, Null, Null, Null, Mk MarkX, Null, Null, Null, Null],
      isXTurn = True, winner = None, gameActive = True\<rparr>"
  have cm: "computerMove 0 (board n) MarkO MarkX = Some 0"
    by (simp add: n_def computerMove_def getAvailableMoves_def upt_conv_Cons hypothetical_def
        assign_def spread_def checkWinner_def lines_def cell_at_def every_cell_def pick_def)
  have cb: "timeoutCallback 0 n n = n'"
    using cm by (simp add: timeoutCallback_def makeMoveFrom_def)
      (simp add: n_def n'_def cell_at_def assign_def spread_def)
  have cw: "checkWinner (board n') = None"
    by (simp add: n'_def checkWinner_def lines_def cell_at_def every_cell_def)
  have ne: "n' \<noteq> n" by (simp add: n_def n'_def)
  have "step (Timeout 0) \<lparr>cur = n, timer = Some n\<rparr> = commit n True \<lparr>cur = n', timer = None\<rparr>"
    using cb ne by (simp add: Let_def)
  also have "\<dots> = afterRender n True \<lparr>cur = n', timer = None\<rparr>"
    by (rule commit_same_mode) (simp add: n_def n'_def)
  also have "\<dots> = runEffect n' (clearTimeout \<lparr>cur = n', timer = None\<rparr>)"
    using afterRender_run[of "\<lparr>cur = n', timer = None\<rparr>" n True]
    by (simp add: n_def n'_def)
  also have "\<dots> = \<lparr>cur = n', timer = None\<rparr>"
    using cw by (simp add: runEffect_def clearTimeout_def Let_def) (simp add: n'_def)
  finally show ?thesis unfolding click4 by (simp add: n_def n'_def del: step.simps)
qed

theorem pending_move_never_stale_witness:
  "app_reachable (step (Click 4) mounted)
   \<and> timer (step (Click 4) mounted) \<noteq> None
   \<and> timer (step Restart (step (Click 4) mounted)) = None
   \<and> timer (step (SetMode TWO) (step (Click 4) mounted)) = None
   \<and> computerMove 0 (board (cur (step (Click 4) mounted))) MarkO MarkX = Some 0
   \<and> cur (step (Timeout 0) (step (Click 4) mounted))
       = boardEffect (makeMove (cur (step (Click 4) mounted)) 0)
   \<and> board (cur (step (Timeout 0) (step (Click 4) mounted)))
       = [Mk MarkO, Null, Null, Null, Mk MarkX, Null, Null, Null, Null]"
proof -
  let ?a = "step (Click 4) mounted"
  have r: "app_reachable ?a" by (intro reach_step reach_mounted)
  have t: "timer ?a \<noteq> None" and m: "TWO \<noteq> mode (cur ?a)"
    unfolding click4 by simp_all
  have ne: "cur (step (Timeout 0) ?a) \<noteq> cur ?a"
    by (simp only: timeout_after_click4) (simp only: click4, simp)
  have b: "board (cur (step (Timeout 0) ?a))
      = [Mk MarkO, Null, Null, Null, Mk MarkX, Null, Null, Null, Null]"
    unfolding timeout_after_click4 by simp
  have cm: "computerMove 0 (board (cur ?a)) MarkO MarkX = Some 0"
    by (simp only: click4)
      (simp add: computerMove_def getAvailableMoves_def upt_conv_Cons hypothetical_def
        assign_def spread_def checkWinner_def lines_def cell_at_def every_cell_def pick_def)
  note c = pending_move_never_stale[OF r, where m = TWO and u = 0]
  from c have c1: "timer (step Restart ?a) = None" by (rule conjunct1)
  from c m have c2: "timer (step (SetMode TWO) ?a) = None" by blast
  from c ne obtain idx where i: "computerMove 0 (board (cur ?a)) MarkO MarkX = Some idx"
    "cur (step (Timeout 0) ?a) = boardEffect (makeMove (cur ?a) idx)"
    by blast
  from i(1) cm have "idx = 0" by (simp del: step.simps)
  with i(2) have c4: "cur (step (Timeout 0) ?a) = boardEffect (makeMove (cur ?a) 0)"
    by (simp del: step.simps)
  from r t c1 c2 cm c4 b show ?thesis by blast
qed

end
